theory Spec2Isabelle
  imports Main
begin

section \<open>The CodeOut text buffer of codeout.py\<close>

text \<open>
  \<^verbatim>\<open>class CodeOut(io.StringIO)\<close> accumulates text in the string stream it inherits from
  and keeps, next to it, an indentation state (\<^verbatim>\<open>_tab\<close>, \<^verbatim>\<open>_level\<close>, the cached prefix
  \<^verbatim>\<open>_ind\<close>) and three position counters (\<^verbatim>\<open>_line\<close>, \<^verbatim>\<open>_col\<close>, \<^verbatim>\<open>_off\<close>).

  The embedding passes the object's state explicitly. A Python \<^verbatim>\<open>str\<close> is a
  \<^typ>\<open>string\<close>, one list element per character the \<^verbatim>\<open>for\<close> loop of \<^verbatim>\<open>write\<close> visits;
  Python's unbounded integers are \<^typ>\<open>int\<close>. An exception is a value of type
  \<open>error\<close>; since a raising method has already mutated the object, every method
  returns the pair of its outcome and of the state it leaves the object in.
  Assertions are taken as enabled (the interpreter is not run with \<^verbatim>\<open>-O\<close>), the
  interpreter is a 64-bit build, and memory is taken to suffice for every string whose
  length fits the interpreter's index type.
\<close>

subsection \<open>Data\<close>

abbreviation nl :: char where
  "nl \<equiv> CHR 0x0A"

text \<open>
  Modelled from the spec: the standard string-stream base class (\<^verbatim>\<open>io.StringIO\<close> of
  the Python library), which the class extends for its storage and its seek and tell
  behaviour and whose code is not in the repository. It owns the characters written so
  far (\<open>buf\<close>, what \<^verbatim>\<open>getvalue()\<close> returns) and the stream position (\<open>pos\<close>, what
  \<^verbatim>\<open>tell()\<close> returns); \<^verbatim>\<open>write\<close> stores its text at the stream position, over
  whatever is there, and moves the position behind it; \<^verbatim>\<open>seek\<close> moves the position.
  The fields of \<open>codeout\<close> are the attributes \<^verbatim>\<open>__init__\<close> creates (lines 186-189),
  named without their leading underscore.
\<close>

record stringio =
  buf :: string
  pos :: nat

record codeout = stringio +
  fn :: string
  tab :: string
  ind :: string
  level :: int
  line :: int
  col :: int
  off :: int

datatype error = AssertionError | AttributeError | FormatError | OverflowError

text \<open>
  What a method hands back to its caller: \<open>Self\<close> for \<^verbatim>\<open>return self\<close>, the very
  object the method was called on, and \<open>PyNone\<close> for a body that ends without a
  \<^verbatim>\<open>return\<close>.
\<close>

datatype retval = Self | PyNone

type_synonym outcome = "(error + retval) \<times> codeout"

subsection \<open>The inherited string stream\<close>

text \<open>
  Modelled from the spec: \<^verbatim>\<open>getvalue\<close>, \<^verbatim>\<open>tell\<close> and \<^verbatim>\<open>seek\<close> (to an absolute
  position) of the string-stream base class, whose code is not in the repository.
\<close>

definition getvalue :: "'a stringio_scheme \<Rightarrow> string" where
  "getvalue s = buf s"

definition tell :: "'a stringio_scheme \<Rightarrow> nat" where
  "tell s = pos s"

definition seek :: "nat \<Rightarrow> 'a stringio_scheme \<Rightarrow> 'a stringio_scheme" where
  "seek p s = s\<lparr>pos := p\<rparr>"

text \<open>
  Modelled from the spec: the \<^verbatim>\<open>write\<close> of the string-stream base class, which the
  class calls as \<^verbatim>\<open>super().write(text)\<close>. Writing the empty string changes nothing.
  Otherwise a position beyond the end is first padded with null characters, and the
  text replaces the characters it covers. With the position at the end of the text,
  which is where the class's own methods leave it, the write appends.
\<close>

definition stringio_write :: "string \<Rightarrow> 'a stringio_scheme \<Rightarrow> 'a stringio_scheme" where
  "stringio_write text s =
     (if text = [] then s
      else s\<lparr>buf := take (pos s) (buf s) @ replicate (pos s - length (buf s)) (CHR 0x00)
                      @ text @ drop (pos s + length text) (buf s),
             pos := pos s + length text\<rparr>)"

subsection \<open>Construction and indentation control\<close>

text \<open>
  \<open>str_mul\<close> is Python's \<^verbatim>\<open>str * int\<close>, which \<^verbatim>\<open>_update_indent\<close> applies to the unit
  and the level. The count is first converted to the interpreter's index type, whose
  range is \<open>- ssize_max - 1 .. ssize_max\<close>, and a count outside it raises
  \<^verbatim>\<open>OverflowError\<close>. A count below one, or an empty string, then gives the empty string;
  a result longer than \<open>ssize_max\<close> raises \<^verbatim>\<open>OverflowError\<close>; otherwise the result is
  the string repeated.
\<close>

definition ssize_max :: int where
  "ssize_max = 2 ^ 63 - 1"

definition str_mul :: "string \<Rightarrow> int \<Rightarrow> error + string" where
  "str_mul t n =
     (if n < - ssize_max - 1 \<or> ssize_max < n then Inl OverflowError
      else if n < 1 \<or> t = [] then Inr []
      else if ssize_max div n < int (length t) then Inl OverflowError
      else Inr (concat (replicate (nat n) t)))"

text \<open>
  \<^verbatim>\<open>_update_indent\<close> (lines 197-198): when the multiplication raises, nothing is
  assigned to \<^verbatim>\<open>_ind\<close>. \<^verbatim>\<open>indent\<close> (lines 204-208) stores the new level first, so a
  call in which \<^verbatim>\<open>_update_indent\<close> raises leaves the object with the new level and the
  prefix it had.
\<close>

definition update_indent :: "codeout \<Rightarrow> error + codeout" where
  "update_indent s =
     (case str_mul (tab s) (level s) of
        Inl e \<Rightarrow> Inl e
      | Inr p \<Rightarrow> Inr (s\<lparr>ind := p\<rparr>))"

definition indent :: "codeout \<Rightarrow> outcome" where
  "indent s =
     (let s1 = s\<lparr>level := level s + 1\<rparr>
      in case update_indent s1 of
           Inl e \<Rightarrow> (Inl e, s1)
         | Inr s2 \<Rightarrow> (Inr Self, s2))"

text \<open>
  \<^verbatim>\<open>unindent\<close> (lines 210-215) and its aliases (217-223). The level is decremented
  before the assertion is evaluated, so a failing call leaves the object with the
  decremented level and the prefix it had.
\<close>

definition unindent :: "codeout \<Rightarrow> outcome" where
  "unindent s =
     (let s1 = s\<lparr>level := level s - 1\<rparr>
      in if level s1 \<ge> 0
         then (case update_indent s1 of
                 Inl e \<Rightarrow> (Inl e, s1)
               | Inr s2 \<Rightarrow> (Inr Self, s2))
         else (Inl AssertionError, s1))"

definition dedent :: "codeout \<Rightarrow> outcome" where
  "dedent s = unindent s"

definition outdent :: "codeout \<Rightarrow> outcome" where
  "outdent s = unindent s"

subsection \<open>Output methods\<close>

text \<open>
  \<^verbatim>\<open>write\<close> (lines 237-247): the body of its \<^verbatim>\<open>for\<close> loop, the loop, and the method,
  here \<open>write_text\<close> since \<^verbatim>\<open>write\<close> is a reserved word of the theory language. Then
  \<^verbatim>\<open>iwrite\<close>, \<^verbatim>\<open>lwrite\<close>, their aliases and \<^verbatim>\<open>newline\<close> (lines 249-274). The text is
  a \<^verbatim>\<open>str\<close>; the default \<^verbatim>\<open>text=''\<close> of \<^verbatim>\<open>lwrite\<close> is the empty string, which is
  also the only string Python takes as false.
\<close>

definition count_char :: "char \<Rightarrow> codeout \<Rightarrow> codeout" where
  "count_char ch s =
     (let s1 = (if ch = nl then s\<lparr>line := line s + 1, col := 0\<rparr>
                else s\<lparr>col := col s + 1\<rparr>)
      in s1\<lparr>off := off s1 + 1\<rparr>)"

primrec count_chars :: "string \<Rightarrow> codeout \<Rightarrow> codeout" where
  "count_chars [] s = s"
| "count_chars (ch # text) s = count_chars text (count_char ch s)"

definition write_text :: "string \<Rightarrow> codeout \<Rightarrow> outcome" where
  "write_text text s = (Inr Self, stringio_write text (count_chars text s))"

definition iwrite :: "string \<Rightarrow> codeout \<Rightarrow> outcome" where
  "iwrite text s = write_text (ind s @ text) s"

definition write_indented :: "string \<Rightarrow> codeout \<Rightarrow> outcome" where
  "write_indented text s = iwrite text s"

definition lwrite :: "string \<Rightarrow> codeout \<Rightarrow> outcome" where
  "lwrite text s = (if text = [] then write_text [nl] s else iwrite (text @ [nl]) s)"

definition write_line :: "string \<Rightarrow> codeout \<Rightarrow> outcome" where
  "write_line text s = lwrite text s"

definition newline :: "codeout \<Rightarrow> outcome" where
  "newline s = lwrite [] s"

text \<open>
  \<^verbatim>\<open>writelines\<close> (lines 276-279) takes a sequence of arbitrary objects and writes \<^verbatim>\<open>str(item)\<close> for
  each; the conversion \<open>str_of\<close> is a parameter. The results of the \<^verbatim>\<open>write_line\<close>
  calls are dropped, an exception in one of them would end the loop, and the body ends
  without a \<^verbatim>\<open>return\<close>.
\<close>

primrec writelines :: "('a \<Rightarrow> string) \<Rightarrow> 'a list \<Rightarrow> codeout \<Rightarrow> outcome" where
  "writelines str_of [] s = (Inr PyNone, s)"
| "writelines str_of (item # seq) s =
     (case write_line (str_of item) s of
        (Inl e, s1) \<Rightarrow> (Inl e, s1)
      | (Inr r, s1) \<Rightarrow> writelines str_of seq s1)"

text \<open>
  \<^verbatim>\<open>format\<close> (lines 229-235) receives the outcome of the library call
  \<^verbatim>\<open>fmt.format(*args, **kwargs)\<close>: the formatted text, or the error it raised.
\<close>

definition format :: "error + string \<Rightarrow> codeout \<Rightarrow> outcome" where
  "format formatted s =
     (case formatted of Inl e \<Rightarrow> (Inl e, s) | Inr text \<Rightarrow> write_text text s)"

text \<open>
  \<^verbatim>\<open>__init__\<close> (lines 176-191), with the arguments \<^verbatim>\<open>fn\<close>, \<^verbatim>\<open>init\<close> and \<^verbatim>\<open>tab\<close>, whose
  defaults are \<^verbatim>\<open>'<string>'\<close>, the empty string and one tab character.
\<close>

definition codeout_init :: "string \<Rightarrow> string \<Rightarrow> string \<Rightarrow> codeout" where
  "codeout_init fn0 init tab0 =
     (let s = \<lparr>buf = [], pos = 0, fn = fn0, tab = tab0, ind = [],
                level = 0, line = 0, col = 0, off = 0\<rparr>
      in if init \<noteq> [] then snd (write_text init s) else s)"

subsection \<open>Properties\<close>

text \<open>
  Lines 285-336. The getters of \<^verbatim>\<open>tab\<close>, \<^verbatim>\<open>level\<close> and \<^verbatim>\<open>line\<close> return the field of the same name and
  are the record's selectors; the other getters are below. A setter is an assignment
  statement: it yields no value, and none of the three checks what it is given. The
  setters of \<^verbatim>\<open>tab\<close> and \<^verbatim>\<open>level\<close> store the value and then call \<^verbatim>\<open>_update_indent\<close>; when
  that raises, the value stays stored next to the prefix the object had.
\<close>

definition filename :: "codeout \<Rightarrow> string" where
  "filename s = fn s"

definition set_filename :: "string \<Rightarrow> codeout \<Rightarrow> outcome" where
  "set_filename v s = (Inr PyNone, s\<lparr>fn := v\<rparr>)"

definition contents :: "codeout \<Rightarrow> string" where
  "contents s = getvalue s"

definition set_tab :: "string \<Rightarrow> codeout \<Rightarrow> outcome" where
  "set_tab v s =
     (let s1 = s\<lparr>tab := v\<rparr>
      in case update_indent s1 of
           Inl e \<Rightarrow> (Inl e, s1)
         | Inr s2 \<Rightarrow> (Inr PyNone, s2))"

definition set_level :: "int \<Rightarrow> codeout \<Rightarrow> outcome" where
  "set_level v s =
     (let s1 = s\<lparr>level := v\<rparr>
      in case update_indent s1 of
           Inl e \<Rightarrow> (Inl e, s1)
         | Inr s2 \<Rightarrow> (Inr PyNone, s2))"

definition indentation :: "codeout \<Rightarrow> string" where
  "indentation s = ind s"

definition column :: "codeout \<Rightarrow> int" where
  "column s = col s"

definition offset :: "codeout \<Rightarrow> int" where
  "offset s = off s"

text \<open>The triple \<^verbatim>\<open>out.line, out.column, out.offset\<close> of the class's doctest.\<close>

definition position :: "codeout \<Rightarrow> int \<times> int \<times> int" where
  "position s = (line s, column s, offset s)"

subsection \<open>Operator overloads\<close>

text \<open>
  Lines 342-356. The right operand of \<^verbatim>\<open>+=\<close> is a \<^verbatim>\<open>str\<close> or any other object, which
  \<^verbatim>\<open>__iconcat__\<close> converts with \<^verbatim>\<open>str\<close> (the parameter \<open>str_of\<close>). The operand of
  \<^verbatim>\<open>==\<close> and \<^verbatim>\<open>!=\<close> is taken to be a plain string.
\<close>

datatype 'a pyobj = Str string | Obj 'a

definition dunder_iconcat :: "('a \<Rightarrow> string) \<Rightarrow> 'a pyobj \<Rightarrow> codeout \<Rightarrow> outcome" where
  "dunder_iconcat str_of rhs s =
     (case write_text (case rhs of Str t \<Rightarrow> t | Obj x \<Rightarrow> str_of x) s of
        (Inl e, s1) \<Rightarrow> (Inl e, s1)
      | (Inr r, s1) \<Rightarrow> (Inr Self, s1))"

definition dunder_iadd :: "('a \<Rightarrow> string) \<Rightarrow> 'a pyobj \<Rightarrow> codeout \<Rightarrow> outcome" where
  "dunder_iadd str_of rhs s = dunder_iconcat str_of rhs s"

definition dunder_str :: "codeout \<Rightarrow> string" where
  "dunder_str s = contents s"

definition dunder_eq :: "codeout \<Rightarrow> string \<Rightarrow> bool" where
  "dunder_eq s x = (contents s = x)"

definition dunder_ne :: "codeout \<Rightarrow> string \<Rightarrow> bool" where
  "dunder_ne s x = (contents s \<noteq> x)"

subsection \<open>Client programs\<close>

text \<open>
  A client holds one buffer and calls its methods and setters one after the other. A
  \<open>call\<close> names one such statement with its arguments (for \<open>WriteLines\<close> and
  \<open>IAdd\<close> the items are strings, which \<^verbatim>\<open>str\<close> returns as they are); \<open>exec\<close> carries
  it out; \<open>run\<close> carries out a sequence, going on after a call that raised, as a
  client that catches the exception can. The states \<open>run cs (codeout_init f i t)\<close> are
  the states a buffer can be in when only the class's own interface is used; the
  inherited \<^verbatim>\<open>seek\<close> is not part of it.
\<close>

datatype call =
    Write string | IWrite string | WriteIndented string
  | LWrite string | WriteLine string | Newline
  | WriteLines "string list" | Format "error + string"
  | Indent | Unindent | Dedent | Outdent
  | SetFilename string | SetTab string | SetLevel int
  | IAdd string

fun exec :: "call \<Rightarrow> codeout \<Rightarrow> outcome" where
  "exec (Write text) s = write_text text s"
| "exec (IWrite text) s = iwrite text s"
| "exec (WriteIndented text) s = write_indented text s"
| "exec (LWrite text) s = lwrite text s"
| "exec (WriteLine text) s = write_line text s"
| "exec Newline s = newline s"
| "exec (WriteLines seq) s = writelines (\<lambda>item. item) seq s"
| "exec (Format formatted) s = format formatted s"
| "exec Indent s = indent s"
| "exec Unindent s = unindent s"
| "exec Dedent s = dedent s"
| "exec Outdent s = outdent s"
| "exec (SetFilename v) s = set_filename v s"
| "exec (SetTab v) s = set_tab v s"
| "exec (SetLevel v) s = set_level v s"
| "exec (IAdd text) s = dunder_iadd (\<lambda>item. item) (Str text) s"

primrec run :: "call list \<Rightarrow> codeout \<Rightarrow> codeout" where
  "run [] s = s"
| "run (c # cs) s = run cs (snd (exec c s))"

text \<open>
  The method call \<^verbatim>\<open>e.m(...)\<close> on the value of a previous call \<^verbatim>\<open>e\<close>: an exception of
  \<^verbatim>\<open>e\<close> propagates, the buffer itself receives the call, and \<^verbatim>\<open>None\<close> has no
  such method.
\<close>

definition chain :: "outcome \<Rightarrow> (codeout \<Rightarrow> outcome) \<Rightarrow> outcome" where
  "chain r m =
     (case r of
        (Inl e, s) \<Rightarrow> (Inl e, s)
      | (Inr Self, s) \<Rightarrow> m s
      | (Inr PyNone, s) \<Rightarrow> (Inl AttributeError, s))"

subsection \<open>Invariants of the buffer\<close>

text \<open>
  The words of the specification, "the unit string repeated this many times", as a
  definition of their own, against which the prefix the code computes is compared.
\<close>

primrec unit_repeated :: "string \<Rightarrow> nat \<Rightarrow> string" where
  "unit_repeated t 0 = []"
| "unit_repeated t (Suc n) = t @ unit_repeated t n"

text \<open>
  Three properties of a state, used to organise the proofs: the stream position is at
  the end of the text; the cached prefix is what \<^verbatim>\<open>_tab * _level\<close> evaluates to, whenever
  that evaluates at all; and the counters describe the text.
\<close>

definition at_end :: "codeout \<Rightarrow> bool" where
  "at_end s = (tell s = length (getvalue s))"

definition prefix_ok :: "codeout \<Rightarrow> bool" where
  "prefix_ok s = (\<forall>p. str_mul (tab s) (level s) = Inr p \<longrightarrow> ind s = p)"

definition counters_ok :: "codeout \<Rightarrow> bool" where
  "counters_ok s =
     (off s = int (length (buf s)) \<and> line s = int (count_list (buf s) nl)
      \<and> col s = int (length (takeWhile (\<lambda>c. c \<noteq> nl) (rev (buf s)))))"

section \<open>Properties of the model\<close>

subsection \<open>The counting loop and a single write\<close>

lemma count_chars_append: "count_chars (a @ b) s = count_chars b (count_chars a s)"
  by (induction a arbitrary: s) simp_all

lemma count_chars_same:
  "buf (count_chars t s) = buf s \<and> pos (count_chars t s) = pos s \<and> fn (count_chars t s) = fn s
   \<and> tab (count_chars t s) = tab s \<and> ind (count_chars t s) = ind s
   \<and> level (count_chars t s) = level s"
  by (induction t arbitrary: s) (simp_all add: count_char_def Let_def)

lemma count_chars_line: "line (count_chars t s) = line s + int (count_list t nl)"
  by (induction t arbitrary: s) (simp_all add: count_char_def Let_def)

lemma count_chars_off: "off (count_chars t s) = off s + int (length t)"
  by (induction t arbitrary: s) (simp_all add: count_char_def Let_def)

lemma takeWhile_rev_no_nl:
  "nl \<notin> set t \<Longrightarrow> takeWhile (\<lambda>c. c \<noteq> nl) (rev t) = rev t"
  by auto

lemma count_chars_col:
  "col (count_chars t s) =
     (if nl \<in> set t then int (length (takeWhile (\<lambda>c. c \<noteq> nl) (rev t)))
      else col s + int (length t))"
proof (induction t arbitrary: s)
  case Nil
  show ?case by simp
next
  case (Cons c t)
  show ?case
  proof (cases "nl \<in> set t")
    case True
    then show ?thesis
      by (auto simp add: Cons.IH takeWhile_append)
  next
    case False
    then show ?thesis
      by (auto simp add: Cons.IH count_char_def Let_def takeWhile_append)
  qed
qed


lemma stringio_write_counters:
  "line (stringio_write x s) = line s \<and> col (stringio_write x s) = col s
   \<and> off (stringio_write x s) = off s"
  by (simp add: stringio_write_def)

lemma fst_write_text: "fst (write_text t s) = Inr Self"
  by (simp add: write_text_def)

lemma buf_write_text:
  "at_end s \<Longrightarrow> buf (snd (write_text t s)) = buf s @ t"
  by (simp add: write_text_def stringio_write_def at_end_def tell_def getvalue_def
      count_chars_same)

lemma at_end_write_text: "at_end s \<Longrightarrow> at_end (snd (write_text t s))"
  by (simp add: write_text_def stringio_write_def at_end_def tell_def getvalue_def
      count_chars_same)

lemma same_write_text:
  "tab (snd (write_text t s)) = tab s \<and> ind (snd (write_text t s)) = ind s
   \<and> level (snd (write_text t s)) = level s \<and> fn (snd (write_text t s)) = fn s"
  by (simp add: write_text_def stringio_write_def count_chars_same)

lemma line_write_text: "line (snd (write_text t s)) = line s + int (count_list t nl)"
  by (simp add: write_text_def stringio_write_def count_chars_line)

lemma off_write_text: "off (snd (write_text t s)) = off s + int (length t)"
  by (simp add: write_text_def stringio_write_def count_chars_off)

lemma col_write_text:
  "col (snd (write_text t s)) =
     (if nl \<in> set t then int (length (takeWhile (\<lambda>c. c \<noteq> nl) (rev t)))
      else col s + int (length t))"
  by (simp add: write_text_def stringio_write_def count_chars_col)

lemma prefix_ok_write_text: "prefix_ok s \<Longrightarrow> prefix_ok (snd (write_text t s))"
  by (simp add: prefix_ok_def same_write_text)

lemma counters_ok_write_text:
  assumes "at_end s" and "counters_ok s"
  shows "counters_ok (snd (write_text t s))"
proof -
  have b: "buf (snd (write_text t s)) = buf s @ t"
    using assms(1) by (rule buf_write_text)
  have "off (snd (write_text t s)) = int (length (buf s @ t))"
    using assms(2) by (simp add: off_write_text counters_ok_def)
  moreover have "line (snd (write_text t s)) = int (count_list (buf s @ t) nl)"
    using assms(2) by (simp add: line_write_text counters_ok_def)
  moreover have "col (snd (write_text t s))
      = int (length (takeWhile (\<lambda>c. c \<noteq> nl) (rev (buf s @ t))))"
    using assms(2) by (auto simp add: col_write_text counters_ok_def takeWhile_append)
  ultimately show ?thesis
    by (simp add: counters_ok_def b)
qed


subsection \<open>The methods built on a write\<close>

lemma fst_lwrite: "fst (lwrite t s) = Inr Self"
  by (simp add: lwrite_def iwrite_def fst_write_text)

lemma fst_iwrite: "fst (iwrite t s) = Inr Self"
  by (simp add: iwrite_def fst_write_text)


lemma writelines_Cons:
  "writelines g (x # seq) s = writelines g seq (snd (write_line (g x) s))"
proof -
  obtain s1 where eq: "write_line (g x) s = (Inr Self, s1)"
    using fst_lwrite [of "g x" s] by (cases "write_line (g x) s") (simp add: write_line_def)
  show ?thesis
    by (simp add: eq)
qed

lemma fst_writelines: "fst (writelines g seq s) = Inr PyNone"
  by (induction seq arbitrary: s) (simp_all add: writelines_Cons del: writelines.simps(2))

lemma write_family:
  assumes w: "\<And>t s. P s \<Longrightarrow> P (snd (write_text t s))" and s: "P s"
  shows "P (snd (iwrite t s))" and "P (snd (write_indented t s))"
    and "P (snd (lwrite t s))" and "P (snd (write_line t s))" and "P (snd (newline s))"
    and "P (snd (format f s))" and "P (snd (dunder_iadd g r s))"
proof -
  show i: "P (snd (iwrite t s))" for t
    by (simp add: iwrite_def w s)
  then show "P (snd (write_indented t s))"
    by (simp add: write_indented_def)
  show l: "P (snd (lwrite t s))" for t
    by (simp add: lwrite_def i w s)
  then show "P (snd (write_line t s))"
    by (simp add: write_line_def)
  from l show "P (snd (newline s))"
    by (simp add: newline_def)
  show "P (snd (format f s))"
    by (cases f) (simp_all add: format_def w s)
  have "snd (dunder_iadd g r s)
      = snd (write_text (case r of Str t \<Rightarrow> t | Obj x \<Rightarrow> g x) s)"
    by (simp add: dunder_iadd_def dunder_iconcat_def write_text_def)
  then show "P (snd (dunder_iadd g r s))"
    by (simp add: w s)
qed

lemma writelines_family:
  assumes w: "\<And>t s. P s \<Longrightarrow> P (snd (write_text t s))"
  shows "P s \<Longrightarrow> P (snd (writelines g seq s))"
proof (induction seq arbitrary: s)
  case Nil
  then show ?case by simp
next
  case (Cons x seq)
  have "P (snd (write_line (g x) s))"
    using w Cons.prems by (rule write_family(4))
  then have "P (snd (writelines g seq (snd (write_line (g x) s))))"
    by (rule Cons.IH)
  then show ?case
    by (simp only: writelines_Cons)
qed


subsection \<open>Chained calls\<close>

lemma chain_self: "fst r = Inr Self \<Longrightarrow> chain r m = m (snd r)"
  by (cases r) (simp add: chain_def)

lemma chain_none: "fst r = Inr PyNone \<Longrightarrow> chain r m = (Inl AttributeError, snd r)"
  by (cases r) (simp add: chain_def)

subsection \<open>What every client program preserves\<close>

lemma set_level_cases:
  "set_level v s =
     (case str_mul (tab s) v of
        Inl e \<Rightarrow> (Inl e, s\<lparr>level := v\<rparr>)
      | Inr p \<Rightarrow> (Inr PyNone, s\<lparr>level := v, ind := p\<rparr>))"
  by (simp add: set_level_def update_indent_def Let_def split: sum.splits)

lemma set_tab_cases:
  "set_tab v s =
     (case str_mul v (level s) of
        Inl e \<Rightarrow> (Inl e, s\<lparr>tab := v\<rparr>)
      | Inr p \<Rightarrow> (Inr PyNone, s\<lparr>tab := v, ind := p\<rparr>))"
  by (simp add: set_tab_def update_indent_def Let_def split: sum.splits)

lemma indent_cases:
  "indent s =
     (case str_mul (tab s) (level s + 1) of
        Inl e \<Rightarrow> (Inl e, s\<lparr>level := level s + 1\<rparr>)
      | Inr p \<Rightarrow> (Inr Self, s\<lparr>level := level s + 1, ind := p\<rparr>))"
  by (simp add: indent_def update_indent_def Let_def split: sum.splits)

lemma unindent_cases:
  "unindent s =
     (if level s - 1 < 0 then (Inl AssertionError, s\<lparr>level := level s - 1\<rparr>)
      else case str_mul (tab s) (level s - 1) of
             Inl e \<Rightarrow> (Inl e, s\<lparr>level := level s - 1\<rparr>)
           | Inr p \<Rightarrow> (Inr Self, s\<lparr>level := level s - 1, ind := p\<rparr>))"
  by (simp add: unindent_def update_indent_def Let_def split: sum.splits)

lemma exec_family:
  assumes w: "\<And>t s. P s \<Longrightarrow> P (snd (write_text t s))"
    and l1: "\<And>v p s. P s \<Longrightarrow> str_mul (tab s) v = Inr p \<Longrightarrow> P (s\<lparr>level := v, ind := p\<rparr>)"
    and l2: "\<And>v e s. P s \<Longrightarrow> str_mul (tab s) v = Inl e \<Longrightarrow> P (s\<lparr>level := v\<rparr>)"
    and u: "\<And>s. P s \<Longrightarrow> level s - 1 < 0 \<Longrightarrow> P (s\<lparr>level := level s - 1\<rparr>)"
    and b1: "\<And>v p s. P s \<Longrightarrow> str_mul v (level s) = Inr p \<Longrightarrow> P (s\<lparr>tab := v, ind := p\<rparr>)"
    and b2: "\<And>v e s. P s \<Longrightarrow> str_mul v (level s) = Inl e \<Longrightarrow> P (s\<lparr>tab := v\<rparr>)"
    and f: "\<And>v s. P s \<Longrightarrow> P (s\<lparr>fn := v\<rparr>)"
    and s: "P s"
  shows "P (snd (exec c s))"
proof -
  have sl: "P (snd (set_level v s))" for v
    by (cases "str_mul (tab s) v") (simp_all add: set_level_cases l1 l2 s)
  have st: "P (snd (set_tab v s))" for v
    by (cases "str_mul v (level s)") (simp_all add: set_tab_cases b1 b2 s)
  have i: "P (snd (indent s))"
    by (cases "str_mul (tab s) (level s + 1)") (simp_all add: indent_cases l1 l2 s)
  have un: "P (snd (unindent s))"
  proof (cases "level s - 1 < 0")
    case True
    then show ?thesis by (simp add: unindent_cases u s)
  next
    case False
    then show ?thesis
      by (cases "str_mul (tab s) (level s - 1)") (simp_all add: unindent_cases l1 l2 s)
  qed
  show ?thesis
  proof (cases c)
    case (WriteLines seq)
    then show ?thesis
      using writelines_family [of P, OF w s] by simp
  next
    case Indent
    then show ?thesis by (simp add: i)
  next
    case Unindent
    then show ?thesis by (simp add: un)
  next
    case Dedent
    then show ?thesis by (simp add: dedent_def un)
  next
    case Outdent
    then show ?thesis by (simp add: outdent_def un)
  next
    case (SetFilename v)
    then show ?thesis by (simp add: set_filename_def f s)
  next
    case (SetTab v)
    then show ?thesis by (simp add: st)
  next
    case (SetLevel v)
    then show ?thesis by (simp add: sl)
  qed (simp_all add: write_family [of P, OF w s] w s)
qed

lemma run_family:
  assumes "\<And>c s. P s \<Longrightarrow> P (snd (exec c s))"
  shows "P s \<Longrightarrow> P (run cs s)"
  by (induction cs arbitrary: s) (simp_all add: assms)

lemma run_snoc: "run (cs @ [c]) s = snd (exec c (run cs s))"
  by (induction cs arbitrary: s) simp_all

lemma run_writes:
  "off (run (map Write ts) s) = off s + int (length (concat ts))
   \<and> line (run (map Write ts) s) = line s + int (count_list (concat ts) nl)
   \<and> (at_end s \<longrightarrow> buf (run (map Write ts) s) = buf s @ concat ts)"
proof (induction ts arbitrary: s)
  case Nil
  show ?case by simp
next
  case (Cons t ts)
  show ?case
    by (simp add: Cons.IH off_write_text line_write_text at_end_write_text buf_write_text)
qed

lemma at_end_run: "at_end s \<Longrightarrow> at_end (run cs s)"
proof (rule run_family [of at_end])
  show "at_end (snd (exec c s))" if "at_end s" for c s
    using that
    by (rule exec_family [of at_end, rotated -1])
      (simp_all add: at_end_write_text, simp_all add: at_end_def tell_def getvalue_def)
qed

lemma prefix_ok_run: "prefix_ok s \<Longrightarrow> prefix_ok (run cs s)"
proof (rule run_family [of prefix_ok])
  show "prefix_ok (snd (exec c s))" if "prefix_ok s" for c s
    using that
    by (rule exec_family [of prefix_ok, rotated -1])
      (simp_all add: prefix_ok_write_text,
       auto simp add: prefix_ok_def str_mul_def ssize_max_def split: if_splits)
qed

lemma counters_ok_run:
  "at_end s \<and> counters_ok s \<Longrightarrow> at_end (run cs s) \<and> counters_ok (run cs s)"
proof (rule run_family [of "\<lambda>s. at_end s \<and> counters_ok s"])
  show "at_end (snd (exec c s)) \<and> counters_ok (snd (exec c s))"
    if "at_end s \<and> counters_ok s" for c s
    using that
    by (rule exec_family [of "\<lambda>s. at_end s \<and> counters_ok s", rotated -1])
      (simp_all add: at_end_write_text counters_ok_write_text,
       simp_all add: at_end_def tell_def getvalue_def counters_ok_def)
qed

lemma init_ok:
  "at_end (codeout_init f i t)" "prefix_ok (codeout_init f i t)"
  "counters_ok (codeout_init f i t)"
proof -
  let ?s = "\<lparr>buf = [], pos = 0, fn = f, tab = t, ind = [],
             level = 0, line = 0, col = 0, off = 0\<rparr>"
  have e: "at_end ?s" by (simp add: at_end_def tell_def getvalue_def)
  have p: "prefix_ok ?s" by (simp add: prefix_ok_def str_mul_def ssize_max_def)
  have c: "counters_ok ?s" by (simp add: counters_ok_def)
  show "at_end (codeout_init f i t)"
    using e by (simp add: codeout_init_def Let_def at_end_write_text)
  show "prefix_ok (codeout_init f i t)"
    using p by (simp add: codeout_init_def Let_def prefix_ok_write_text)
  show "counters_ok (codeout_init f i t)"
    using e c by (simp add: codeout_init_def Let_def counters_ok_write_text)
qed


lemma buf_init: "buf (codeout_init f i t) = i"
  by (simp add: codeout_init_def Let_def write_text_def stringio_write_def count_chars_same)

lemma reach_ok:
  "at_end (run cs (codeout_init f i t))" "prefix_ok (run cs (codeout_init f i t))"
  "counters_ok (run cs (codeout_init f i t))"
  using counters_ok_run [of "codeout_init f i t" cs]
  by (simp_all add: init_ok at_end_run prefix_ok_run)

subsection \<open>What the prefix is\<close>

lemma unit_repeated_concat: "concat (replicate n t) = unit_repeated t n"
  by (induction n) simp_all

lemma unit_repeated_Nil: "unit_repeated [] n = []"
  by (induction n) simp_all

lemma length_unit_repeated: "length (unit_repeated t n) = n * length t"
  by (induction n) simp_all

lemma str_mul_repeated: "str_mul t n = Inr p \<Longrightarrow> p = unit_repeated t (nat n)"
  by (auto simp add: str_mul_def unit_repeated_concat unit_repeated_Nil split: if_splits)

lemma reach_prefix:
  "str_mul (tab (run cs (codeout_init f i t))) (level (run cs (codeout_init f i t))) = Inr p
   \<Longrightarrow> ind (run cs (codeout_init f i t)) = p"
  using reach_ok(2) [of cs f i t] by (simp add: prefix_ok_def)

subsection \<open>Indenting and unindenting again\<close>



section \<open>The claims of the specification\<close>

subsection \<open>Indentation below zero\<close>

text \<open>
  Claim C1. \<^verbatim>\<open>unindent()\<close>, and likewise its aliases \<^verbatim>\<open>dedent()\<close> and \<^verbatim>\<open>outdent()\<close>,
  called on a buffer whose level is 0 raises \<^verbatim>\<open>AssertionError\<close>; and in every state of
  the buffer, hence in every reachable one, a call of any of the three that returns
  leaves a level that is not negative.
\<close>

theorem unindent_at_zero_fails:
  "(level s = 0 \<longrightarrow>
      fst (unindent s) = Inl AssertionError \<and> fst (dedent s) = Inl AssertionError
      \<and> fst (outdent s) = Inl AssertionError)
   \<and> ((\<exists>r. fst (unindent s) = Inr r) \<longrightarrow> 0 \<le> level (snd (unindent s)))
   \<and> ((\<exists>r. fst (dedent s) = Inr r) \<longrightarrow> 0 \<le> level (snd (dedent s)))
   \<and> ((\<exists>r. fst (outdent s) = Inr r) \<longrightarrow> 0 \<le> level (snd (outdent s)))"
  by (simp add: dedent_def outdent_def unindent_cases split: sum.splits)

text \<open>
  The hypotheses are met by a fresh buffer, where the call raises, and by a fresh
  buffer after one \<^verbatim>\<open>indent()\<close>, where it returns.
\<close>

theorem unindent_at_zero_fails_witness:
  "level (codeout_init ''<string>'' [] [CHR 0x09]) = 0
   \<and> fst (unindent (codeout_init ''<string>'' [] [CHR 0x09])) = Inl AssertionError
   \<and> fst (unindent (snd (indent (codeout_init ''<string>'' [] [CHR 0x09])))) = Inr Self
   \<and> 0 \<le> level (snd (unindent (snd (indent (codeout_init ''<string>'' [] [CHR 0x09])))))"
  using unindent_at_zero_fails [of "codeout_init ''<string>'' [] [CHR 0x09]"]
    unindent_at_zero_fails [of "snd (indent (codeout_init ''<string>'' [] [CHR 0x09]))"]
  by (simp add: codeout_init_def indent_cases unindent_cases str_mul_def ssize_max_def)

text \<open>
  Claim C2. Assigning a negative value to \<^verbatim>\<open>level\<close> is to raise an assertion error. On a
  fresh buffer the assignment \<^verbatim>\<open>level = -1\<close> completes: the setter, unlike
  \<^verbatim>\<open>unindent\<close>, asserts nothing, stores \<open>-1\<close> as the level and recomputes the prefix,
  which is empty.
\<close>

theorem set_level_negative_accepted:
  "set_level (- 1) (codeout_init ''<string>'' [] [CHR 0x09])
     = (Inr PyNone, \<lparr>buf = [], pos = 0, fn = ''<string>'', tab = [CHR 0x09], ind = [],
                       level = - 1, line = 0, col = 0, off = 0\<rparr>)"
  by (simp add: set_level_cases codeout_init_def str_mul_def ssize_max_def)

subsection \<open>Return values and chaining\<close>

text \<open>
  Claim C3 says that every mutating operation, \<^verbatim>\<open>writelines\<close> among them, returns the
  buffer. The body of \<^verbatim>\<open>writelines\<close> has no \<^verbatim>\<open>return\<close>: the call yields \<^verbatim>\<open>None\<close>, and
  a call chained onto it raises \<^verbatim>\<open>AttributeError\<close>.
\<close>

theorem writelines_returns_none:
  "fst (writelines id [''a'', ''b''] (codeout_init ''<string>'' [] [CHR 0x09])) = Inr PyNone
   \<and> fst (chain (writelines id [''a'', ''b''] (codeout_init ''<string>'' [] [CHR 0x09])) newline)
       = Inl AttributeError"
  by code_simp

text \<open>
  Claim C3, as the code has it. \<^verbatim>\<open>write\<close>, \<^verbatim>\<open>iwrite\<close>, \<^verbatim>\<open>write_indented\<close>, \<^verbatim>\<open>lwrite\<close>,
  \<^verbatim>\<open>write_line\<close> and \<^verbatim>\<open>newline\<close> always return the buffer itself; \<^verbatim>\<open>format\<close> does when
  the formatting succeeds and passes the formatter's error on otherwise. \<^verbatim>\<open>indent\<close>
  returns the buffer itself unless the prefix for the new level cannot be built, where
  it raises \<^verbatim>\<open>OverflowError\<close>; \<^verbatim>\<open>unindent\<close>, \<^verbatim>\<open>dedent\<close> and \<^verbatim>\<open>outdent\<close> raise
  \<^verbatim>\<open>AssertionError\<close> when the level is below 1, raise \<^verbatim>\<open>OverflowError\<close> when the prefix
  for the new level cannot be built, and return the buffer itself otherwise. So each of
  these methods, when it returns, returns the buffer itself. A call chained onto one
  that returned is a call on the buffer in the state the first one left. \<^verbatim>\<open>writelines\<close> returns \<^verbatim>\<open>None\<close>, so
  a call chained onto it raises.
\<close>

theorem mutators_return_self:
  "fst (write_text text s) = Inr Self
   \<and> fst (iwrite text s) = Inr Self \<and> fst (write_indented text s) = Inr Self
   \<and> fst (lwrite text s) = Inr Self \<and> fst (write_line text s) = Inr Self
   \<and> fst (newline s) = Inr Self
   \<and> fst (format (Inr text) s) = Inr Self \<and> fst (format (Inl e) s) = Inl e
   \<and> fst (indent s)
       = (case str_mul (tab s) (level s + 1) of Inl x \<Rightarrow> Inl x | Inr p \<Rightarrow> Inr Self)
   \<and> fst (unindent s)
       = (if level s < 1 then Inl AssertionError
          else case str_mul (tab s) (level s - 1) of Inl x \<Rightarrow> Inl x | Inr p \<Rightarrow> Inr Self)
   \<and> dedent s = unindent s \<and> outdent s = unindent s
   \<and> fst (indent s) \<noteq> Inr PyNone \<and> fst (unindent s) \<noteq> Inr PyNone
   \<and> fst (writelines str_of seq s) = Inr PyNone
   \<and> chain (write_text text s) m = m (snd (write_text text s))
   \<and> chain (iwrite text s) m = m (snd (iwrite text s))
   \<and> chain (lwrite text s) m = m (snd (lwrite text s))
   \<and> (fst (indent s) = Inr Self \<longrightarrow> chain (indent s) m = m (snd (indent s)))
   \<and> (fst (unindent s) = Inr Self \<longrightarrow> chain (unindent s) m = m (snd (unindent s)))
   \<and> chain (writelines str_of seq s) m = (Inl AttributeError, snd (writelines str_of seq s))"
proof -
  have i: "fst (indent s)
       = (case str_mul (tab s) (level s + 1) of Inl x \<Rightarrow> Inl x | Inr p \<Rightarrow> Inr Self)"
    by (simp add: indent_cases split: sum.splits)
  have u: "fst (unindent s)
       = (if level s < 1 then Inl AssertionError
          else case str_mul (tab s) (level s - 1) of Inl x \<Rightarrow> Inl x | Inr p \<Rightarrow> Inr Self)"
    by (simp add: unindent_cases split: sum.splits)
  have n: "fst (indent s) \<noteq> Inr PyNone" "fst (unindent s) \<noteq> Inr PyNone"
    by (simp_all add: i u split: sum.splits)
  have f: "fst (format (Inr text) s) = Inr Self" "fst (format (Inl e) s) = Inl e"
    by (simp_all add: format_def fst_write_text)
  have a: "dedent s = unindent s \<and> outdent s = unindent s"
    by (simp add: dedent_def outdent_def)
  have w: "fst (write_indented text s) = Inr Self" "fst (write_line text s) = Inr Self"
    "fst (newline s) = Inr Self"
    by (simp_all add: write_indented_def write_line_def newline_def fst_iwrite fst_lwrite)
  have c: "chain (write_text text s) m = m (snd (write_text text s))"
    "chain (iwrite text s) m = m (snd (iwrite text s))"
    "chain (lwrite text s) m = m (snd (lwrite text s))"
    "chain (writelines str_of seq s) m = (Inl AttributeError, snd (writelines str_of seq s))"
    by (simp_all add: chain_self chain_none fst_write_text fst_iwrite fst_lwrite fst_writelines)
  show ?thesis
    using i u n f a w c fst_write_text [of "text" s] fst_iwrite [of "text" s]
      fst_lwrite [of "text" s] fst_writelines [of str_of seq s]
      chain_self [of "indent s" m] chain_self [of "unindent s" m]
    by blast
qed

text \<open>
  On a fresh buffer \<^verbatim>\<open>indent\<close> returns, and \<^verbatim>\<open>unindent\<close> chained onto it returns too.
\<close>

theorem mutators_return_self_witness:
  "fst (indent (codeout_init ''<string>'' [] [CHR 0x09])) = Inr Self
   \<and> fst (unindent (snd (indent (codeout_init ''<string>'' [] [CHR 0x09])))) = Inr Self
   \<and> chain (indent (codeout_init ''<string>'' [] [CHR 0x09])) unindent
       = unindent (snd (indent (codeout_init ''<string>'' [] [CHR 0x09])))
   \<and> chain (unindent (snd (indent (codeout_init ''<string>'' [] [CHR 0x09])))) newline
       = newline (snd (unindent (snd (indent (codeout_init ''<string>'' [] [CHR 0x09])))))"
proof -
  have h: "fst (indent (codeout_init ''<string>'' [] [CHR 0x09])) = Inr Self"
    by code_simp
  have k: "fst (unindent (snd (indent (codeout_init ''<string>'' [] [CHR 0x09])))) = Inr Self"
    by code_simp
  show ?thesis
    using h k mutators_return_self [of _ "codeout_init ''<string>'' [] [CHR 0x09]"]
      mutators_return_self [of _ "snd (indent (codeout_init ''<string>'' [] [CHR 0x09]))"]
    by blast
qed

subsection \<open>Writing\<close>

text \<open>
  Claim C4 says that every \<^verbatim>\<open>write(text)\<close> makes the contents grow by exactly the text.
  The class's own doctest shows a call that does not: after \<^verbatim>\<open>write('12')\<close> and the
  inherited \<^verbatim>\<open>seek(0)\<close>, the contents are \<^verbatim>\<open>'12'\<close>, and \<^verbatim>\<open>write('a')\<close> makes them
  \<^verbatim>\<open>'a2'\<close>, while the counters go on to \<open>(0, 3, 3)\<close>.
\<close>

theorem write_after_seek_overwrites:
  "contents (seek 0 (snd (write_text ''12'' (codeout_init ''<string>'' [] [CHR 0x09])))) = ''12''
   \<and> tell (snd (write_text ''12'' (codeout_init ''<string>'' [] [CHR 0x09]))) = 2
   \<and> contents (snd (write_text ''a''
         (seek 0 (snd (write_text ''12'' (codeout_init ''<string>'' [] [CHR 0x09])))))) = ''a2''
   \<and> position (snd (write_text ''a''
         (seek 0 (snd (write_text ''12'' (codeout_init ''<string>'' [] [CHR 0x09])))))) = (0, 3, 3)"
  by code_simp

text \<open>
  Claim C4, as the code has it. Whenever the stream position is at the end of the
  contents, \<^verbatim>\<open>write(text)\<close> makes the contents the old contents followed by \<open>text\<close>
  and leaves the position at the end; it is there in every state a client program
  reaches, so there every \<^verbatim>\<open>write\<close> appends. In every state whatsoever \<^verbatim>\<open>write\<close>
  updates the counters character by character: the empty text leaves them alone, a
  text is counted as its first character followed by the rest, a newline adds one to
  \<open>line\<close> and sets \<open>column\<close> to 0, any other character adds one to \<open>column\<close>,
  and each character adds one to \<open>offset\<close>; so \<open>offset\<close> grows by the length of
  the text and \<open>line\<close> by its number of newlines. Over a sequence of \<^verbatim>\<open>write\<close> calls
  \<open>offset\<close> grows by the total number of characters and \<open>line\<close> by the total
  number of newlines; from construction with seed text \<open>i\<close> on, the contents are
  everything written, \<open>offset\<close> is its length and \<open>line\<close> its number of newlines.
\<close>

theorem write_text_appends_and_counts:
  "(tell s = length (contents s) \<longrightarrow>
      contents (snd (write_text text s)) = contents s @ text
      \<and> tell (snd (write_text text s)) = length (contents (snd (write_text text s))))
   \<and> tell (run cs (codeout_init f i t)) = length (contents (run cs (codeout_init f i t)))
   \<and> contents (snd (write_text text (run cs (codeout_init f i t))))
     = contents (run cs (codeout_init f i t)) @ text
   \<and> position (snd (write_text [] s)) = position s
   \<and> position (snd (write_text [ch] s))
       = (if ch = nl then (line s + 1, 0, offset s + 1) else (line s, column s + 1, offset s + 1))
   \<and> position (snd (write_text (ch # text) s))
       = position (snd (write_text text (snd (write_text [ch] s))))
   \<and> offset (snd (write_text text s)) = offset s + int (length text)
   \<and> line (snd (write_text text s)) = line s + int (count_list text nl)
   \<and> offset (run (map Write ts) s) = offset s + int (length (concat ts))
   \<and> line (run (map Write ts) s) = line s + int (count_list (concat ts) nl)
   \<and> contents (run (map Write ts) (codeout_init f i t)) = i @ concat ts
   \<and> offset (run (map Write ts) (codeout_init f i t)) = int (length (i @ concat ts))
   \<and> line (run (map Write ts) (codeout_init f i t)) = int (count_list (i @ concat ts) nl)"
proof -
  have z: "contents (snd (write_text text s)) = contents s @ text
      \<and> tell (snd (write_text text s)) = length (contents (snd (write_text text s)))"
    if "tell s = length (contents s)"
  proof -
    from that have e: "at_end s"
      by (simp add: at_end_def contents_def)
    from at_end_write_text [OF e, of "text"] buf_write_text [OF e, of "text"] show ?thesis
      by (simp add: at_end_def contents_def getvalue_def)
  qed
  have y: "tell (run cs (codeout_init f i t)) = length (contents (run cs (codeout_init f i t)))"
    using reach_ok(1) [of cs f i t] by (simp add: at_end_def contents_def)
  have a: "contents (snd (write_text text (run cs (codeout_init f i t))))
     = contents (run cs (codeout_init f i t)) @ text"
    by (simp add: contents_def getvalue_def buf_write_text reach_ok)
  have b: "position (snd (write_text [] s)) = position s"
    by (simp add: position_def column_def offset_def write_text_def stringio_write_def)
  have c: "position (snd (write_text [ch] s))
       = (if ch = nl then (line s + 1, 0, offset s + 1) else (line s, column s + 1, offset s + 1))"
    by (simp add: position_def column_def offset_def write_text_def stringio_write_def
        count_char_def)
  have d: "position (snd (write_text (ch # text) s))
       = position (snd (write_text text (snd (write_text [ch] s))))"
    by (simp add: position_def column_def offset_def write_text_def stringio_write_counters
        count_chars_line count_chars_off count_chars_col)
  have e: "offset (snd (write_text text s)) = offset s + int (length text)"
    by (simp add: offset_def off_write_text)
  have g: "offset (run (map Write ts) s) = offset s + int (length (concat ts))" for s
    using run_writes [of ts s] by (simp add: offset_def)
  have h: "line (run (map Write ts) s) = line s + int (count_list (concat ts) nl)" for s
    using run_writes [of ts s] by simp
  have i0: "at_end (codeout_init f i t)" "counters_ok (codeout_init f i t)"
    by (rule init_ok)+
  have j: "contents (run (map Write ts) (codeout_init f i t)) = i @ concat ts"
    using run_writes [of ts "codeout_init f i t"] i0(1)
    by (simp add: contents_def getvalue_def buf_init)
  have k: "offset (run (map Write ts) (codeout_init f i t)) = int (length (i @ concat ts))"
    using g [of "codeout_init f i t"] i0(2)
    by (simp add: offset_def counters_ok_def buf_init)
  have l: "line (run (map Write ts) (codeout_init f i t)) = int (count_list (i @ concat ts) nl)"
    using h [of "codeout_init f i t"] i0(2)
    by (simp add: counters_ok_def buf_init)
  show ?thesis
    using z y a b c d e g h j k l line_write_text [of "text" s] by blast
qed

text \<open>
  The hypothesis is met by a fresh buffer after \<^verbatim>\<open>write('12')\<close>, the state in which the
  doctest calls \<^verbatim>\<open>seek\<close>: without the \<^verbatim>\<open>seek\<close>, \<^verbatim>\<open>write('a')\<close> gives \<^verbatim>\<open>'12a'\<close>.
\<close>

theorem write_text_appends_and_counts_witness:
  "tell (snd (write_text ''12'' (codeout_init ''<string>'' [] [CHR 0x09])))
     = length (contents (snd (write_text ''12'' (codeout_init ''<string>'' [] [CHR 0x09]))))
   \<and> contents (snd (write_text ''a''
         (snd (write_text ''12'' (codeout_init ''<string>'' [] [CHR 0x09]))))) = ''12a''"
proof -
  have h: "tell (snd (write_text ''12'' (codeout_init ''<string>'' [] [CHR 0x09])))
     = length (contents (snd (write_text ''12'' (codeout_init ''<string>'' [] [CHR 0x09]))))"
    by code_simp
  have c: "contents (snd (write_text ''12'' (codeout_init ''<string>'' [] [CHR 0x09]))) = ''12''"
    by code_simp
  have "contents (snd (write_text ''a''
         (snd (write_text ''12'' (codeout_init ''<string>'' [] [CHR 0x09])))))
      = contents (snd (write_text ''12'' (codeout_init ''<string>'' [] [CHR 0x09]))) @ ''a''"
    using h write_text_appends_and_counts
      [of "snd (write_text ''12'' (codeout_init ''<string>'' [] [CHR 0x09]))" "''a''"]
    by blast
  with h c show ?thesis
    by simp
qed

subsection \<open>Writing a line\<close>



text \<open>
  Claim C6. On a fresh buffer with a unit of two spaces, \<^verbatim>\<open>write_line('<foo>')\<close>,
  \<^verbatim>\<open>indent()\<close>, \<^verbatim>\<open>write_line('<bar/>')\<close>, \<^verbatim>\<open>unindent()\<close>, \<^verbatim>\<open>write_line('</foo>')\<close>
  leave the contents \<^verbatim>\<open><foo>\n  <bar/>\n</foo>\n\<close> and the counters
  \<open>(line, column, offset) = (3, 0, 22)\<close>; the chained form of the class's doctest
  returns the buffer in the same state, no call raising.
\<close>

theorem doctest_scenario:
  "contents (run [WriteLine ''<foo>'', Indent, WriteLine ''<bar/>'', Unindent, WriteLine ''</foo>'']
       (codeout_init ''<string>'' [] ''  ''))
     = ''<foo>'' @ [nl] @ ''  <bar/>'' @ [nl] @ ''</foo>'' @ [nl]
   \<and> position (run [WriteLine ''<foo>'', Indent, WriteLine ''<bar/>'', Unindent, WriteLine ''</foo>'']
       (codeout_init ''<string>'' [] ''  '')) = (3, 0, 22)
   \<and> chain (chain (chain (chain (lwrite ''<foo>'' (codeout_init ''<string>'' [] ''  '')) indent)
       (lwrite ''<bar/>'')) unindent) (lwrite ''</foo>'')
     = (Inr Self,
        run [WriteLine ''<foo>'', Indent, WriteLine ''<bar/>'', Unindent, WriteLine ''</foo>'']
          (codeout_init ''<string>'' [] ''  ''))"
  by code_simp

subsection \<open>The round trip of indent and unindent\<close>




subsection \<open>Operators\<close>

text \<open>
  Claim C8. \<^verbatim>\<open>==\<close> against a plain string holds exactly when the string is the
  contents, \<^verbatim>\<open>!=\<close> exactly when it is not, and \<^verbatim>\<open>str\<close> gives the contents. \<^verbatim>\<open>+=\<close>
  with a string is \<^verbatim>\<open>write\<close> of that string, with any other object \<^verbatim>\<open>write\<close> of its
  \<^verbatim>\<open>str\<close> conversion, and evaluates to the buffer itself; in every state a client
  program reaches it makes the contents the old contents followed by that text. A
  fresh buffer after \<^verbatim>\<open>+= 'a'\<close> and \<^verbatim>\<open>+= 'b'\<close> is equal to \<^verbatim>\<open>'ab'\<close>, and its \<^verbatim>\<open>str\<close> is
  \<^verbatim>\<open>'ab'\<close>.
\<close>

theorem operators_follow_contents:
  "dunder_eq s x = (contents s = x) \<and> dunder_ne s x = (contents s \<noteq> x)
   \<and> dunder_str s = contents s
   \<and> dunder_iadd str_of (Str text) s = (Inr Self, snd (write_text text s))
   \<and> dunder_iadd str_of (Obj y) s = (Inr Self, snd (write_text (str_of y) s))
   \<and> (let r = run cs (codeout_init f i t) in
        contents (snd (dunder_iadd str_of (Str text) r)) = contents r @ text
        \<and> contents (snd (dunder_iadd str_of (Obj y) r)) = contents r @ str_of y)
   \<and> (let r2 = snd (dunder_iadd str_of (Str ''b'')
                   (snd (dunder_iadd str_of (Str ''a'') (codeout_init f [] t)))) in
        dunder_eq r2 ''ab'' \<and> \<not> dunder_ne r2 ''ab'' \<and> dunder_str r2 = ''ab'')"
proof -
  have a: "dunder_iadd g (Str z) s = (Inr Self, snd (write_text z s))" for g :: "'a \<Rightarrow> string" and z s
    by (simp add: dunder_iadd_def dunder_iconcat_def write_text_def)
  have b: "dunder_iadd str_of (Obj y) s = (Inr Self, snd (write_text (str_of y) s))" for s
    by (simp add: dunder_iadd_def dunder_iconcat_def write_text_def)
  let ?r = "run cs (codeout_init f i t)"
  have e: "at_end ?r"
    by (rule reach_ok)
  have c: "contents (snd (dunder_iadd str_of (Str text) ?r)) = contents ?r @ text"
    and d: "contents (snd (dunder_iadd str_of (Obj y) ?r)) = contents ?r @ str_of y"
    using e by (simp_all add: a b contents_def getvalue_def buf_write_text)
  have e0: "at_end (codeout_init f [] t)"
    by (rule init_ok)
  have "contents (snd (dunder_iadd str_of (Str ''b'')
          (snd (dunder_iadd str_of (Str ''a'') (codeout_init f [] t))))) = ''ab''"
    using e0
    by (simp add: a contents_def getvalue_def buf_write_text at_end_write_text buf_init)
  then have g: "let r2 = snd (dunder_iadd str_of (Str ''b'')
                   (snd (dunder_iadd str_of (Str ''a'') (codeout_init f [] t)))) in
        dunder_eq r2 ''ab'' \<and> \<not> dunder_ne r2 ''ab'' \<and> dunder_str r2 = ''ab''"
    by (simp add: Let_def dunder_eq_def dunder_ne_def dunder_str_def)
  have h: "dunder_eq s x = (contents s = x) \<and> dunder_ne s x = (contents s \<noteq> x)
     \<and> dunder_str s = contents s"
    by (simp add: dunder_eq_def dunder_ne_def dunder_str_def)
  show ?thesis
    unfolding Let_def using a [of str_of "text" s] b [of s] c d g h unfolding Let_def by blast
qed

subsection \<open>The cached prefix\<close>

text \<open>
  Claim C9 says that after every public operation, setting the level among them, the
  cached prefix is the unit repeated \<open>level\<close> times. On a fresh buffer, after one
  \<^verbatim>\<open>indent()\<close>, the assignment \<^verbatim>\<open>level = 2 ** 63\<close> stores the level and then raises
  \<^verbatim>\<open>OverflowError\<close> in \<^verbatim>\<open>_update_indent\<close>: the buffer is left at level \<open>2 ^ 63\<close> with
  the prefix of level 1, one tab.
\<close>

theorem stale_prefix_after_overflow:
  "fst (set_level (2 ^ 63) (snd (indent (codeout_init ''<string>'' [] [CHR 0x09])))) = Inl OverflowError
   \<and> level (snd (set_level (2 ^ 63) (snd (indent (codeout_init ''<string>'' [] [CHR 0x09])))))
       = 2 ^ 63
   \<and> tab (snd (set_level (2 ^ 63) (snd (indent (codeout_init ''<string>'' [] [CHR 0x09])))))
       = [CHR 0x09]
   \<and> indentation (snd (set_level (2 ^ 63) (snd (indent (codeout_init ''<string>'' [] [CHR 0x09])))))
       = [CHR 0x09]
   \<and> indentation (snd (set_level (2 ^ 63) (snd (indent (codeout_init ''<string>'' [] [CHR 0x09])))))
       \<noteq> unit_repeated [CHR 0x09] (nat (2 ^ 63))"
proof -
  have a: "set_level (2 ^ 63) (snd (indent (codeout_init ''<string>'' [] [CHR 0x09])))
      = (Inl OverflowError,
         \<lparr>buf = [], pos = 0, fn = ''<string>'', tab = [CHR 0x09], ind = [CHR 0x09],
            level = 2 ^ 63, line = 0, col = 0, off = 0\<rparr>)"
    by (simp add: set_level_cases indent_cases codeout_init_def str_mul_def ssize_max_def)
  have l: "length (unit_repeated [CHR 0x09] (nat (2 ^ 63))) = nat (2 ^ 63)"
    by (simp add: length_unit_repeated)
  have b: "[CHR 0x09] \<noteq> unit_repeated [CHR 0x09] (nat (2 ^ 63))"
  proof
    assume "[CHR 0x09] = unit_repeated [CHR 0x09] (nat (2 ^ 63))"
    then have "length [CHR 0x09] = length (unit_repeated [CHR 0x09] (nat (2 ^ 63)))"
      by (rule arg_cong)
    with l have "(1::nat) = nat (2 ^ 63)"
      by simp
    then show False
      by simp
  qed
  show ?thesis
    unfolding indentation_def a using b by simp
qed

text \<open>
  Claim C9, as the code has it. After construction the prefix is the unit repeated
  \<open>level\<close> times, and every \<^verbatim>\<open>indent\<close>, \<^verbatim>\<open>unindent\<close>, level assignment and unit
  assignment that returns leaves it so, where a level below one gives the empty
  prefix; the write operations touch none of unit, level and prefix. Hence after every
  sequence of public operations, also ones that raised, the cached prefix is the unit
  repeated \<open>level\<close> times whenever \<^verbatim>\<open>_tab * _level\<close> evaluates.
  Assigning \<open>v\<close> to \<^verbatim>\<open>tab\<close>, when it returns, makes \<open>v\<close> the unit and at once the
  prefix \<open>v\<close> repeated \<open>level\<close> times; in every case it leaves the level, the
  contents and the counters as they were.
\<close>

theorem prefix_is_unit_times_level:
  "indentation (codeout_init f i t)
     = unit_repeated (tab (codeout_init f i t)) (nat (level (codeout_init f i t)))
   \<and> (let r = run cs (codeout_init f i t) in
        (str_mul (tab r) (level r) = Inr p \<longrightarrow>
           indentation r = p \<and> p = unit_repeated (tab r) (nat (level r))))
   \<and> (fst (indent s) = Inr Self \<longrightarrow>
        indentation (snd (indent s))
          = unit_repeated (tab (snd (indent s))) (nat (level (snd (indent s)))))
   \<and> (fst (unindent s) = Inr Self \<longrightarrow>
        indentation (snd (unindent s))
          = unit_repeated (tab (snd (unindent s))) (nat (level (snd (unindent s)))))
   \<and> (fst (set_level v s) = Inr PyNone \<longrightarrow>
        level (snd (set_level v s)) = v \<and> tab (snd (set_level v s)) = tab s
        \<and> indentation (snd (set_level v s)) = unit_repeated (tab s) (nat v))
   \<and> (fst (set_tab u s) = Inr PyNone \<longrightarrow>
        tab (snd (set_tab u s)) = u
        \<and> indentation (snd (set_tab u s)) = unit_repeated u (nat (level s)))
   \<and> level (snd (set_tab u s)) = level s
   \<and> contents (snd (set_tab u s)) = contents s
   \<and> position (snd (set_tab u s)) = position s
   \<and> tab (snd (write_text text s)) = tab s \<and> level (snd (write_text text s)) = level s
   \<and> indentation (snd (write_text text s)) = indentation s"
proof -
  let ?r = "run cs (codeout_init f i t)"
  have c0: "indentation (codeout_init f i t)
     = unit_repeated (tab (codeout_init f i t)) (nat (level (codeout_init f i t)))"
    by (simp add: indentation_def codeout_init_def Let_def same_write_text)
  have a: "indentation ?r = q \<and> q = unit_repeated (tab ?r) (nat (level ?r))"
    if "str_mul (tab ?r) (level ?r) = Inr q" for q
    using reach_prefix [OF that] str_mul_repeated [OF that] by (simp add: indentation_def)
  have i: "indentation (snd (indent s))
          = unit_repeated (tab (snd (indent s))) (nat (level (snd (indent s))))"
    if "fst (indent s) = Inr Self"
  proof (cases "str_mul (tab s) (level s + 1)")
    case (Inl x)
    with that show ?thesis by (simp add: indent_cases)
  next
    case (Inr q)
    with str_mul_repeated [OF Inr] show ?thesis
      by (simp add: indent_cases indentation_def)
  qed
  have un: "indentation (snd (unindent s))
          = unit_repeated (tab (snd (unindent s))) (nat (level (snd (unindent s))))"
    if "fst (unindent s) = Inr Self"
  proof (cases "str_mul (tab s) (level s - 1)")
    case (Inl x)
    with that show ?thesis by (simp add: unindent_cases split: if_splits)
  next
    case (Inr q)
    with that str_mul_repeated [OF Inr] show ?thesis
      by (simp add: unindent_cases indentation_def split: if_splits)
  qed
  have sl: "level (snd (set_level v s)) = v \<and> tab (snd (set_level v s)) = tab s
        \<and> indentation (snd (set_level v s)) = unit_repeated (tab s) (nat v)"
    if "fst (set_level v s) = Inr PyNone"
  proof (cases "str_mul (tab s) v")
    case (Inl x)
    with that show ?thesis by (simp add: set_level_cases)
  next
    case (Inr q)
    with str_mul_repeated [OF Inr] show ?thesis
      by (simp add: set_level_cases indentation_def)
  qed
  have st: "tab (snd (set_tab u s)) = u
        \<and> indentation (snd (set_tab u s)) = unit_repeated u (nat (level s))"
    if "fst (set_tab u s) = Inr PyNone"
  proof (cases "str_mul u (level s)")
    case (Inl x)
    with that show ?thesis by (simp add: set_tab_cases)
  next
    case (Inr q)
    with str_mul_repeated [OF Inr] show ?thesis
      by (simp add: set_tab_cases indentation_def)
  qed
  have k: "level (snd (set_tab u s)) = level s \<and> contents (snd (set_tab u s)) = contents s
      \<and> position (snd (set_tab u s)) = position s"
    by (cases "str_mul u (level s)")
      (simp_all add: set_tab_cases contents_def getvalue_def position_def column_def offset_def)
  have w: "tab (snd (write_text text s)) = tab s \<and> level (snd (write_text text s)) = level s
      \<and> indentation (snd (write_text text s)) = indentation s"
    by (simp add: same_write_text indentation_def)
  show ?thesis
    unfolding Let_def using c0 a i un sl st k w by blast
qed

text \<open>
  The hypotheses are met by a buffer with a unit of two spaces after one \<^verbatim>\<open>indent()\<close>,
  from which \<^verbatim>\<open>indent()\<close>, \<^verbatim>\<open>unindent()\<close>, \<^verbatim>\<open>level = 3\<close> and \<^verbatim>\<open>tab = 'ab'\<close> all return.
\<close>

theorem prefix_is_unit_times_level_witness:
  "str_mul (tab (run [Indent] (codeout_init ''<string>'' [] ''  '')))
       (level (run [Indent] (codeout_init ''<string>'' [] ''  ''))) = Inr ''  ''
   \<and> fst (indent (run [Indent] (codeout_init ''<string>'' [] ''  ''))) = Inr Self
   \<and> fst (unindent (run [Indent] (codeout_init ''<string>'' [] ''  ''))) = Inr Self
   \<and> fst (set_level 3 (run [Indent] (codeout_init ''<string>'' [] ''  ''))) = Inr PyNone
   \<and> fst (set_tab ''ab'' (run [Indent] (codeout_init ''<string>'' [] ''  ''))) = Inr PyNone
   \<and> indentation (run [Indent] (codeout_init ''<string>'' [] ''  ''))
       = unit_repeated ''  '' (nat 1)
   \<and> indentation (snd (set_level 3 (run [Indent] (codeout_init ''<string>'' [] ''  ''))))
       = unit_repeated ''  '' (nat 3)
   \<and> indentation (snd (set_tab ''ab'' (run [Indent] (codeout_init ''<string>'' [] ''  ''))))
       = unit_repeated ''ab'' (nat 1)"
proof -
  have h: "str_mul (tab (run [Indent] (codeout_init ''<string>'' [] ''  '')))
       (level (run [Indent] (codeout_init ''<string>'' [] ''  ''))) = Inr ''  ''
     \<and> fst (indent (run [Indent] (codeout_init ''<string>'' [] ''  ''))) = Inr Self
     \<and> fst (unindent (run [Indent] (codeout_init ''<string>'' [] ''  ''))) = Inr Self
     \<and> fst (set_level 3 (run [Indent] (codeout_init ''<string>'' [] ''  ''))) = Inr PyNone
     \<and> fst (set_tab ''ab'' (run [Indent] (codeout_init ''<string>'' [] ''  ''))) = Inr PyNone"
    by code_simp
  have l: "tab (run [Indent] (codeout_init ''<string>'' [] ''  '')) = ''  ''
     \<and> level (run [Indent] (codeout_init ''<string>'' [] ''  '')) = 1"
    by code_simp
  from h l prefix_is_unit_times_level
    [of "''<string>''" "[]" "''  ''" "[Indent]" "''  ''"
        "run [Indent] (codeout_init ''<string>'' [] ''  '')" 3 "''ab''"]
  show ?thesis
    unfolding Let_def by simp
qed

subsection \<open>The position counters\<close>

text \<open>
  Claim C10. In every state a client program reaches from the constructor, seed text
  included, \<open>offset\<close> is the length of the contents, \<open>line\<close> their number of
  newlines, and \<open>column\<close> the number of characters behind the last newline, which
  is the length of the contents when they hold no newline; the stream position is at
  the end of the contents.
\<close>

theorem counters_describe_contents:
  "(let s = run cs (codeout_init f i t) in
      offset s = int (length (contents s))
      \<and> line s = int (count_list (contents s) nl)
      \<and> column s = int (length (takeWhile (\<lambda>ch. ch \<noteq> nl) (rev (contents s))))
      \<and> column s = (if nl \<in> set (contents s)
                      then int (length (takeWhile (\<lambda>ch. ch \<noteq> nl) (rev (contents s))))
                      else int (length (contents s)))
      \<and> tell s = length (contents s))"
proof -
  let ?s = "run cs (codeout_init f i t)"
  have c: "counters_ok ?s" and e: "at_end ?s"
    by (rule reach_ok)+
  have n: "length (takeWhile (\<lambda>ch. ch \<noteq> nl) (rev b)) = length b" if "nl \<notin> set b"
    for b :: string
    by (simp only: takeWhile_rev_no_nl [OF that] length_rev)
  have o: "offset ?s = int (length (contents ?s))"
    and l: "line ?s = int (count_list (contents ?s) nl)"
    and k: "column ?s = int (length (takeWhile (\<lambda>ch. ch \<noteq> nl) (rev (contents ?s))))"
    using c by (simp_all add: counters_ok_def contents_def getvalue_def offset_def column_def)
  have k2: "column ?s = (if nl \<in> set (contents ?s)
                      then int (length (takeWhile (\<lambda>ch. ch \<noteq> nl) (rev (contents ?s))))
                      else int (length (contents ?s)))"
    using k n [of "contents ?s"] by simp
  have p: "tell ?s = length (contents ?s)"
    using e by (simp add: at_end_def contents_def)
  show ?thesis
    unfolding Let_def using o l k k2 p by blast
qed

end
